theory Spec2Isabelle
  imports Main
begin

section \<open>Strings\<close>

text \<open>
  A JavaScript string is modelled as a \<^typ>\<open>string\<close> whose characters are read as the code
  points U+0000 .. U+00FF. On that range \<open>String.prototype.trim\<close> strips the characters
  TAB, LF, VT, FF, CR, SPACE and NBSP from both ends, and \<open>String.prototype.toLowerCase\<close>
  adds 32 to the code of \<open>A\<close> .. \<open>Z\<close> and of U+00C0 .. U+00DE except the multiplication sign
  U+00D7, and leaves every other character as it is.
\<close>

definition isWhiteSpace :: "char \<Rightarrow> bool" where
  "isWhiteSpace c =
     (let n = (of_char c :: nat)
      in (9 \<le> n \<and> n \<le> 13) \<or> n = 32 \<or> n = 160)"

definition toLowerChar :: "char \<Rightarrow> char" where
  "toLowerChar c =
     (let n = (of_char c :: nat)
      in if (65 \<le> n \<and> n \<le> 90) \<or> (192 \<le> n \<and> n \<le> 222 \<and> n \<noteq> 215)
         then char_of (n + 32) else c)"

definition trim :: "string \<Rightarrow> string" where
  "trim s = rev (dropWhile isWhiteSpace (rev (dropWhile isWhiteSpace s)))"

definition toLowerCase :: "string \<Rightarrow> string" where
  "toLowerCase s = map toLowerChar s"

text \<open>The expression \<open>tagInput.trim().toLowerCase()\<close> of \<open>handleAddTag\<close>.\<close>

definition normalizeTag :: "string \<Rightarrow> string" where
  "normalizeTag s = toLowerCase (trim s)"

section \<open>TagsInput\<close>

text \<open>
  The props of the component that its handlers read. \<open>maxTags\<close> is a JavaScript number,
  modelled as an integer. The defaults are those of the destructuring pattern.
\<close>

record TagsInputProps =
  maxTags :: int
  allowDuplicates :: bool

definition defaultProps :: TagsInputProps where
  "defaultProps = \<lparr>maxTags = 10, allowDuplicates = False\<rparr>"

text \<open>
  The state the handlers work on: the \<open>tags\<close> prop, owned by the parent, and the local
  \<open>tagInput\<close>. A call \<open>onTagsChange(v)\<close> is modelled as the parent storing \<open>v\<close> as the new
  \<open>tags\<close> (every caller in the repository passes its state setter), a call
  \<open>setTagInput(v)\<close> as storing \<open>v\<close> as the new \<open>tagInput\<close>.
\<close>

record TagsInputState =
  tags :: "string list"
  tagInput :: string

definition handleAddTag :: "TagsInputProps \<Rightarrow> TagsInputState \<Rightarrow> TagsInputState" where
  "handleAddTag props st =
     (let trimmedTag = normalizeTag (tagInput st)
      in if trimmedTag = [] then st
         else if \<not> allowDuplicates props \<and> trimmedTag \<in> set (tags st)
           then st\<lparr>tagInput := []\<rparr>
         else if maxTags props \<le> int (length (tags st)) then st
         else st\<lparr>tags := tags st @ [trimmedTag], tagInput := []\<rparr>)"

definition handleRemoveTag :: "TagsInputState \<Rightarrow> string \<Rightarrow> TagsInputState" where
  "handleRemoveTag st tagToRemove =
     st\<lparr>tags := filter (\<lambda>tag. tag \<noteq> tagToRemove) (tags st)\<rparr>"

text \<open>
  The key handler. In its second branch \<open>tags.length > 0\<close> holds, so the index
  \<open>tags.length - 1\<close> is in range.
\<close>

definition handleTagKeyDown ::
  "TagsInputProps \<Rightarrow> string \<Rightarrow> TagsInputState \<Rightarrow> TagsInputState" where
  "handleTagKeyDown props key st =
     (if key = ''Enter'' then handleAddTag props st
      else if key = ''Backspace'' \<and> tagInput st = [] \<and> 0 < length (tags st)
        then handleRemoveTag st (tags st ! (length (tags st) - 1))
      else st)"

text \<open>
  The three editor operations of the specification, read off the handlers: the collection
  that the parent holds after the handler has run.
\<close>

definition addTag :: "string list \<Rightarrow> string \<Rightarrow> TagsInputProps \<Rightarrow> string list" where
  "addTag C rawInput cfg = tags (handleAddTag cfg \<lparr>tags = C, tagInput = rawInput\<rparr>)"

definition removeTag :: "string list \<Rightarrow> string \<Rightarrow> string list" where
  "removeTag C t = tags (handleRemoveTag \<lparr>tags = C, tagInput = []\<rparr> t)"

definition removeLastTag :: "TagsInputProps \<Rightarrow> string list \<Rightarrow> string list" where
  "removeLastTag cfg C = tags (handleTagKeyDown cfg ''Backspace'' \<lparr>tags = C, tagInput = []\<rparr>)"

section \<open>TagsDisplay\<close>

datatype Variant = Default | Compact

text \<open>
  What the component renders: one button per entry of \<open>displayTags\<close>, in that order, and
  the "+N more" badge exactly when \<open>remainingCount > 0\<close>. The two variants differ in
  styling only.
\<close>

record Rendering =
  variant :: Variant
  displayTags :: "string list"
  remainingCount :: int

text \<open>
  The optional prop \<open>maxDisplay\<close> is \<open>None\<close> when it is undefined and an integer
  otherwise. The source tests it for truthiness: undefined and 0 are falsy.
\<close>

definition truthy :: "int option \<Rightarrow> bool" where
  "truthy maxDisplay = (case maxDisplay of None \<Rightarrow> False | Some m \<Rightarrow> m \<noteq> 0)"

text \<open>
  \<open>tags.slice(0, end)\<close>: a negative \<open>end\<close> counts from the end of the array, and the
  bounds are clamped to the array.
\<close>

definition slice0 :: "'a list \<Rightarrow> int \<Rightarrow> 'a list" where
  "slice0 xs e =
     (let len = int (length xs);
          k = (if e < 0 then max (len + e) 0 else min e len)
      in take (nat k) xs)"

definition computeDisplayTags :: "string list \<Rightarrow> int option \<Rightarrow> string list" where
  "computeDisplayTags ts maxDisplay =
     (if truthy maxDisplay then slice0 ts (the maxDisplay) else ts)"

definition computeRemainingCount :: "string list \<Rightarrow> int option \<Rightarrow> int" where
  "computeRemainingCount ts maxDisplay =
     (if truthy maxDisplay then max 0 (int (length ts) - the maxDisplay) else 0)"

text \<open>The component: \<open>None\<close> is the source's \<open>return null\<close>.\<close>

definition TagsDisplay :: "string list \<Rightarrow> int option \<Rightarrow> Variant \<Rightarrow> Rendering option" where
  "TagsDisplay ts maxDisplay v =
     (if length ts = 0 then None
      else Some \<lparr>variant = v,
                 displayTags = computeDisplayTags ts maxDisplay,
                 remainingCount = computeRemainingCount ts maxDisplay\<rparr>)"

section \<open>Tasks\<close>

datatype TaskPriority = Low | Medium | High

text \<open>
  The interface \<open>TaskItem\<close> (\<open>Task\<close> with the legacy field \<open>text\<close>). Dates are
  modelled as their time value in milliseconds. The fields \<open>id\<close>, \<open>tags\<close> and \<open>text\<close>
  carry a prefix, since those names are taken.
\<close>

record TaskItem =
  task_id :: string
  title :: string
  description :: "string option"
  priority :: TaskPriority
  task_tags :: "string list"
  completed :: bool
  createdAt :: int
  dueDate :: "int option"
  task_text :: "string option"

text \<open>The updater that \<open>handleToggleTask\<close> passes to \<open>setTasks\<close>, applied to the list.\<close>

definition handleToggleTask :: "string \<Rightarrow> TaskItem list \<Rightarrow> TaskItem list" where
  "handleToggleTask i prevTasks =
     map (\<lambda>task. if task_id task = i then task\<lparr>completed := \<not> completed task\<rparr> else task)
       prevTasks"

text \<open>A task list used to exercise the toggle on concrete data.\<close>

definition exampleTasks :: "TaskItem list" where
  "exampleTasks =
     [\<lparr>task_id = ''2'', title = ''write'', description = None, priority = Medium,
        task_tags = [], completed = False, createdAt = 2, dueDate = None,
        task_text = Some ''write''\<rparr>,
      \<lparr>task_id = ''1'', title = ''read'', description = Some ''a book'', priority = High,
        task_tags = [''home''], completed = True, createdAt = 1, dueDate = Some 9,
        task_text = Some ''read''\<rparr>]"

section \<open>The Tag Collection of the data model\<close>

text \<open>
  The data model calls a Tag a normalized string, and a Tag Collection a sequence of Tags
  that does not exceed the configured maximum size and has no two normalized-equal entries
  unless duplicates are permitted.
\<close>

definition isTag :: "string \<Rightarrow> bool" where
  "isTag t = (normalizeTag t = t)"

definition invariant :: "TagsInputProps \<Rightarrow> string list \<Rightarrow> bool" where
  "invariant cfg C =
     (int (length C) \<le> maxTags cfg \<and> (allowDuplicates cfg \<or> distinct (map normalizeTag C)))"

text \<open>An edit session: a sequence of editor operations, run from a starting collection.\<close>

datatype EditorOp = Add string | Remove string | RemoveLast

fun applyOp :: "TagsInputProps \<Rightarrow> string list \<Rightarrow> EditorOp \<Rightarrow> string list" where
  "applyOp cfg C (Add rawInput) = addTag C rawInput cfg"
| "applyOp cfg C (Remove t) = removeTag C t"
| "applyOp cfg C RemoveLast = removeLastTag cfg C"

definition runSession :: "TagsInputProps \<Rightarrow> string list \<Rightarrow> EditorOp list \<Rightarrow> string list" where
  "runSession cfg C ops = foldl (applyOp cfg) C ops"

section \<open>Normalization as the specification words it\<close>

text \<open>
  The specification's step 1 of add: trim surrounding whitespace, lowercase. This second
  definition is written from those words and independently of \<open>normalizeTag\<close>: the
  whitespace characters and the pairs of upper and lower case letters are given as tables
  (on the code points U+0000 .. U+00FF), leading whitespace is stripped from the front and
  trailing whitespace from the back by recursion on the string.
\<close>

definition specWhiteSpace :: "char list" where
  "specWhiteSpace = [CHR 0x09, CHR 0x0A, CHR 0x0B, CHR 0x0C, CHR 0x0D, CHR 0x20, CHR 0xA0]"

definition upperLetters :: string where
  "upperLetters = ''ABCDEFGHIJKLMNOPQRSTUVWXYZ'' @
     [
      CHR 0xC0, CHR 0xC1, CHR 0xC2, CHR 0xC3, CHR 0xC4, CHR 0xC5, CHR 0xC6, CHR 0xC7,
      CHR 0xC8, CHR 0xC9, CHR 0xCA, CHR 0xCB, CHR 0xCC, CHR 0xCD, CHR 0xCE, CHR 0xCF,
      CHR 0xD0, CHR 0xD1, CHR 0xD2, CHR 0xD3, CHR 0xD4, CHR 0xD5, CHR 0xD6, CHR 0xD8,
      CHR 0xD9, CHR 0xDA, CHR 0xDB, CHR 0xDC, CHR 0xDD, CHR 0xDE]"

definition lowerLetters :: string where
  "lowerLetters = ''abcdefghijklmnopqrstuvwxyz'' @
     [
      CHR 0xE0, CHR 0xE1, CHR 0xE2, CHR 0xE3, CHR 0xE4, CHR 0xE5, CHR 0xE6, CHR 0xE7,
      CHR 0xE8, CHR 0xE9, CHR 0xEA, CHR 0xEB, CHR 0xEC, CHR 0xED, CHR 0xEE, CHR 0xEF,
      CHR 0xF0, CHR 0xF1, CHR 0xF2, CHR 0xF3, CHR 0xF4, CHR 0xF5, CHR 0xF6, CHR 0xF8,
      CHR 0xF9, CHR 0xFA, CHR 0xFB, CHR 0xFC, CHR 0xFD, CHR 0xFE]"

definition specLowerChar :: "char \<Rightarrow> char" where
  "specLowerChar c = (case map_of (zip upperLetters lowerLetters) c of None \<Rightarrow> c | Some l \<Rightarrow> l)"

fun stripLeading :: "string \<Rightarrow> string" where
  "stripLeading [] = []"
| "stripLeading (c # cs) = (if c \<in> set specWhiteSpace then stripLeading cs else c # cs)"

fun stripTrailing :: "string \<Rightarrow> string" where
  "stripTrailing [] = []"
| "stripTrailing (c # cs) =
     (let rest = stripTrailing cs
      in if rest = [] \<and> c \<in> set specWhiteSpace then [] else c # rest)"

definition specNormalize :: "string \<Rightarrow> string" where
  "specNormalize s = map specLowerChar (stripTrailing (stripLeading s))"

section \<open>Normalization\<close>

lemma toLowerChar_code:
  "(of_char (toLowerChar c) :: nat) =
     (let n = of_char c in if (65 \<le> n \<and> n \<le> 90) \<or> (192 \<le> n \<and> n \<le> 222 \<and> n \<noteq> 215) then n + 32 else n)"
  by (simp add: toLowerChar_def Let_def)

lemma isWhiteSpace_toLowerChar: "isWhiteSpace (toLowerChar c) = isWhiteSpace c"
  unfolding isWhiteSpace_def toLowerChar_code by (simp add: Let_def)

lemma toLowerChar_idem: "toLowerChar (toLowerChar c) = toLowerChar c"
  by (rule of_char_eqI[where 'a=nat]) (simp add: toLowerChar_code Let_def)

lemma trim_fixed:
  assumes "s = [] \<or> (\<not> isWhiteSpace (hd s) \<and> \<not> isWhiteSpace (last s))"
  shows "trim s = s"
proof (cases s)
  case Nil
  then show ?thesis by (simp add: trim_def)
next
  case (Cons a as)
  with assms have h: "\<not> isWhiteSpace (hd s)" and l: "\<not> isWhiteSpace (last s)" by auto
  from h Cons have 1: "dropWhile isWhiteSpace s = s" by simp
  from Cons have ne: "s \<noteq> []" by simp
  from l have "\<not> isWhiteSpace (hd (rev s))" by (simp add: hd_rev)
  moreover from ne have "rev s \<noteq> []" by simp
  ultimately have 2: "dropWhile isWhiteSpace (rev s) = rev s" by (cases "rev s") auto
  show ?thesis by (simp add: trim_def 1 2)
qed

lemma last_dropWhile: "dropWhile P xs \<noteq> [] \<Longrightarrow> last (dropWhile P xs) = last xs"
  by (induction xs) (auto split: if_splits)

lemma trim_ends:
  assumes "trim s \<noteq> []"
  shows "\<not> isWhiteSpace (hd (trim s)) \<and> \<not> isWhiteSpace (last (trim s))"
proof -
  let ?d = "dropWhile isWhiteSpace s"
  let ?e = "dropWhile isWhiteSpace (rev ?d)"
  from assms have ne: "?e \<noteq> []" by (simp add: trim_def)
  then have he: "\<not> isWhiteSpace (hd ?e)" by (rule hd_dropWhile)
  have dne: "?d \<noteq> []"
  proof
    assume "?d = []"
    then have "?e = []" by (simp only: rev.simps dropWhile.simps)
    with ne show False by contradiction
  qed
  then have hd_d: "\<not> isWhiteSpace (hd ?d)" by (rule hd_dropWhile)
  have last_e: "last ?e = hd ?d"
    using last_dropWhile[OF ne] by (simp only: last_rev)
  have "hd (trim s) = last ?e" using ne by (simp add: trim_def hd_rev)
  moreover have "last (trim s) = hd ?e" using ne by (simp add: trim_def last_rev)
  ultimately show ?thesis using he hd_d last_e by simp
qed

lemma normalizeTag_idem: "normalizeTag (normalizeTag s) = normalizeTag s"
proof -
  let ?t = "trim s"
  have "trim (toLowerCase ?t) = toLowerCase ?t"
  proof (rule trim_fixed, cases "?t = []")
    case True
    then show "toLowerCase ?t = [] \<or> (\<not> isWhiteSpace (hd (toLowerCase ?t)) \<and> \<not> isWhiteSpace (last (toLowerCase ?t)))"
      by (simp add: toLowerCase_def)
  next
    case False
    with trim_ends[OF False] show "toLowerCase ?t = [] \<or> (\<not> isWhiteSpace (hd (toLowerCase ?t)) \<and> \<not> isWhiteSpace (last (toLowerCase ?t)))"
      by (simp add: toLowerCase_def hd_map last_map isWhiteSpace_toLowerChar)
  qed
  then show ?thesis
    by (simp add: normalizeTag_def toLowerCase_def toLowerChar_idem)
qed

text \<open>
  The source's normalization computes what the specification's wording describes. The two
  character-level facts are checked on each of the 256 characters.
\<close>

lemma all_chars: "Enum.enum_all (\<lambda>c. toLowerChar c = specLowerChar c \<and> isWhiteSpace c = (c \<in> set specWhiteSpace))"
  by code_simp

lemma toLowerChar_spec: "toLowerChar c = specLowerChar c"
  using all_chars by (simp add: enum_all_UNIV)

lemma isWhiteSpace_spec: "isWhiteSpace c = (c \<in> set specWhiteSpace)"
  using all_chars by (simp add: enum_all_UNIV)


lemma stripLeading_dropWhile: "stripLeading s = dropWhile isWhiteSpace s"
  by (induction s) (simp_all add: isWhiteSpace_spec)

lemma stripTrailing_dropWhile: "stripTrailing s = rev (dropWhile isWhiteSpace (rev s))"
proof (induction s)
  case Nil
  show ?case by simp
next
  case (Cons c cs)
  have empty: "(stripTrailing cs = []) = (\<forall>x\<in>set cs. isWhiteSpace x)"
    by (simp add: Cons.IH dropWhile_eq_Nil_conv)
  have mem: "(c \<in> set specWhiteSpace) = isWhiteSpace c"
    by (simp only: isWhiteSpace_spec)
  show ?case
  proof (cases "\<forall>x\<in>set cs. isWhiteSpace x")
    case True
    then have "dropWhile isWhiteSpace (rev cs @ [c]) = dropWhile isWhiteSpace [c]"
      by (intro dropWhile_append2) simp
    moreover from True empty have "stripTrailing cs = []" by simp
    ultimately show ?thesis by (simp add: Let_def mem)
  next
    case False
    then have "dropWhile isWhiteSpace (rev cs @ [c]) = dropWhile isWhiteSpace (rev cs) @ [c]"
      by (auto simp add: dropWhile_append)
    moreover from False empty have "stripTrailing cs \<noteq> []" by simp
    ultimately show ?thesis by (simp add: Let_def Cons.IH)
  qed
qed

lemma normalizeTag_spec: "normalizeTag s = specNormalize s"
proof -
  have "toLowerChar = specLowerChar" by (rule ext) (rule toLowerChar_spec)
  then show ?thesis
    by (simp add: normalizeTag_def specNormalize_def toLowerCase_def trim_def
        stripLeading_dropWhile stripTrailing_dropWhile)
qed

lemma normalizeTag_newtag: "normalizeTag ''newtag'' = ''newtag''"
  by code_simp

section \<open>The editor operations as list functions\<close>

lemma addTag_eq:
  "addTag C rawInput cfg =
     (if normalizeTag rawInput = [] then C
      else if \<not> allowDuplicates cfg \<and> normalizeTag rawInput \<in> set C then C
      else if maxTags cfg \<le> int (length C) then C
      else C @ [normalizeTag rawInput])"
  by (simp add: addTag_def handleAddTag_def Let_def)

lemma removeTag_eq: "removeTag C t = filter (\<lambda>tag. tag \<noteq> t) C"
  by (simp add: removeTag_def handleRemoveTag_def)

lemma removeLastTag_eq:
  "removeLastTag cfg C = (if C = [] then [] else filter (\<lambda>tag. tag \<noteq> last C) C)"
  by (simp add: removeLastTag_def handleTagKeyDown_def handleRemoveTag_def last_conv_nth)

lemma removeLastTag_Nil: "removeLastTag cfg [] = []"
  by (simp add: removeLastTag_eq)

lemma removeLastTag_butlast:
  assumes "C \<noteq> []" and "last C \<notin> set (butlast C)"
  shows "removeLastTag cfg C = butlast C"
proof -
  from assms(1) have C: "C = butlast C @ [last C]" by simp
  have "filter (\<lambda>tag. tag \<noteq> last C) (butlast C @ [last C]) = butlast C"
    using assms(2) by (auto simp add: filter_id_conv)
  with C have "filter (\<lambda>tag. tag \<noteq> last C) C = butlast C" by simp
  with assms(1) show ?thesis by (simp add: removeLastTag_eq)
qed

section \<open>The renderer's projection under a positive cap and under no cap\<close>

lemma slice0_nonneg: "0 \<le> e \<Longrightarrow> slice0 xs e = take (nat e) xs"
proof (cases "e \<le> int (length xs)")
  case True
  assume "0 \<le> e"
  with True show ?thesis by (simp add: slice0_def Let_def min_def)
next
  case False
  assume "0 \<le> e"
  with False have "length xs \<le> nat e" by linarith
  with False \<open>0 \<le> e\<close> show ?thesis by (simp add: slice0_def Let_def min_def)
qed

lemma cap_positive:
  assumes "0 < m"
  shows "computeDisplayTags ts (Some m) = take (min (nat m) (length ts)) ts"
    and "computeRemainingCount ts (Some m) = max 0 (int (length ts) - m)"
  using assms
  by (simp_all add: computeDisplayTags_def computeRemainingCount_def truthy_def slice0_nonneg min_def)

lemma cap_undefined:
  "computeDisplayTags ts None = ts" "computeRemainingCount ts None = 0"
  by (simp_all add: computeDisplayTags_def computeRemainingCount_def truthy_def)

section \<open>Invariant preservation, operation by operation\<close>

lemma map_normalizeTag_tags: "list_all isTag C \<Longrightarrow> map normalizeTag C = C"
  by (induction C) (simp_all add: isTag_def)

lemma isTag_normalizeTag: "isTag (normalizeTag s)"
  by (simp add: isTag_def normalizeTag_idem)

lemma filter_keeps_invariant:
  assumes "list_all isTag C" and "invariant cfg C"
  shows "invariant cfg (filter P C) \<and> list_all isTag (filter P C)"
proof -
  have len: "int (length (filter P C)) \<le> int (length C)" by simp
  from assms(1) have tags: "list_all isTag (filter P C)" by (simp add: list_all_iff)
  from assms have "allowDuplicates cfg \<or> distinct C"
    by (simp add: invariant_def map_normalizeTag_tags)
  then have "allowDuplicates cfg \<or> distinct (filter P C)" by auto
  then have "allowDuplicates cfg \<or> distinct (map normalizeTag (filter P C))"
    by (simp add: map_normalizeTag_tags [OF tags])
  moreover from assms(2) have "int (length C) \<le> maxTags cfg" by (simp add: invariant_def)
  with len have "int (length (filter P C)) \<le> maxTags cfg" by linarith
  ultimately show ?thesis using tags by (simp add: invariant_def)
qed

lemma addTag_keeps_invariant:
  assumes "list_all isTag C" and "invariant cfg C"
  shows "invariant cfg (addTag C rawInput cfg) \<and> list_all isTag (addTag C rawInput cfg)"
proof (cases "addTag C rawInput cfg = C")
  case True
  with assms show ?thesis by simp
next
  case False
  let ?t = "normalizeTag rawInput"
  from False have app: "addTag C rawInput cfg = C @ [?t]"
    and fresh: "allowDuplicates cfg \<or> ?t \<notin> set C"
    and room: "int (length C) < maxTags cfg"
    by (auto simp add: addTag_eq split: if_splits)
  from assms(1) have tags: "list_all isTag (C @ [?t])" by (simp add: isTag_normalizeTag)
  from assms have "allowDuplicates cfg \<or> distinct C"
    by (simp add: invariant_def map_normalizeTag_tags)
  with fresh have "allowDuplicates cfg \<or> distinct (C @ [?t])" by auto
  then have "allowDuplicates cfg \<or> distinct (map normalizeTag (C @ [?t]))"
    by (simp only: map_normalizeTag_tags [OF tags])
  moreover from room have "int (length (C @ [?t])) \<le> maxTags cfg" by simp
  ultimately show ?thesis using tags app by (simp only: invariant_def simp_thms)
qed

lemma removeTag_keeps_invariant:
  assumes "list_all isTag C" and "invariant cfg C"
  shows "invariant cfg (removeTag C t) \<and> list_all isTag (removeTag C t)"
  using filter_keeps_invariant [OF assms] by (simp add: removeTag_eq)

lemma removeLastTag_keeps_invariant:
  assumes "list_all isTag C" and "invariant cfg C"
  shows "invariant cfg (removeLastTag cfg C) \<and> list_all isTag (removeLastTag cfg C)"
proof (cases "C = []")
  case True
  with assms show ?thesis by (simp add: removeLastTag_eq)
next
  case False
  then have "removeLastTag cfg C = filter (\<lambda>tag. tag \<noteq> last C) C"
    by (simp add: removeLastTag_eq)
  with filter_keeps_invariant [OF assms] show ?thesis by simp
qed

text \<open>
  Every collection that an edit session builds from the empty one is a sequence of Tags that
  satisfies the invariant, so the hypotheses of the preservation theorem hold throughout a
  session that starts empty.
\<close>

lemma applyOp_keeps_invariant:
  assumes "list_all isTag C" and "invariant cfg C"
  shows "invariant cfg (applyOp cfg C x) \<and> list_all isTag (applyOp cfg C x)"
proof (cases x)
  case (Add rawInput)
  with addTag_keeps_invariant [OF assms] show ?thesis by simp
next
  case (Remove t)
  with removeTag_keeps_invariant [OF assms] show ?thesis by simp
next
  case RemoveLast
  with removeLastTag_keeps_invariant [OF assms] show ?thesis by simp
qed

lemma runSession_keeps_invariant:
  assumes "list_all isTag C" and "invariant cfg C"
  shows "invariant cfg (runSession cfg C ops) \<and> list_all isTag (runSession cfg C ops)"
  using assms unfolding runSession_def
proof (induction ops arbitrary: C)
  case Nil
  then show ?case by simp
next
  case (Cons x ops)
  from applyOp_keeps_invariant [OF Cons.prems]
  have "invariant cfg (applyOp cfg C x)" and "list_all isTag (applyOp cfg C x)" by simp_all
  from Cons.IH [OF this(2) this(1)] show ?case by simp
qed

lemma session_from_empty:
  assumes "0 \<le> maxTags cfg"
  shows "invariant cfg (runSession cfg [] ops) \<and> list_all isTag (runSession cfg [] ops)"
proof -
  from assms have "invariant cfg []" by (simp add: invariant_def)
  moreover have "list_all isTag []" by simp
  ultimately show ?thesis by (rule runSession_keeps_invariant [rotated])
qed

section \<open>The claims\<close>

text \<open>
  C1. The claim: for every tag list and every display cap, 0 included, the projection shows
  the first \<open>min maxDisplay (length tags)\<close> tags and reports the overflow
  \<open>max 0 (length tags - maxDisplay)\<close>. The source tests \<open>maxDisplay\<close> for truthiness, so
  the cap 0 is treated as no cap: on two tags the component shows both and reports no
  overflow, where the claim asks for no tag and the overflow 2. (For a positive cap and for
  no cap the claimed values are the computed ones: \<open>cap_positive\<close>, \<open>cap_undefined\<close>.)
\<close>

theorem TagsDisplay_zero_cap:
  "TagsDisplay [''a'', ''b''] (Some 0) Default =
     Some \<lparr>variant = Default, displayTags = [''a'', ''b''], remainingCount = 0\<rparr>
   \<and> computeDisplayTags [''a'', ''b''] (Some 0) \<noteq> take (min (nat 0) (length [''a'', ''b''])) [''a'', ''b'']
   \<and> computeRemainingCount [''a'', ''b''] (Some 0) \<noteq> max 0 (int (length [''a'', ''b'']) - 0)"
  by (simp add: TagsDisplay_def computeDisplayTags_def computeRemainingCount_def truthy_def)

text \<open>
  C2. The claim: removeLast removes exactly the final entry and keeps every earlier one,
  also those equal to it. The key handler passes the value of the final entry to
  \<open>handleRemoveTag\<close>, which filters out every entry with that value: with duplicates
  allowed, three additions build \<open>[x, y, x]\<close>, and Backspace then leaves \<open>[y]\<close>, not
  \<open>[x, y]\<close>. (On the empty collection, and whenever the final entry occurs once, the
  operation does what the claim says: \<open>removeLastTag_Nil\<close>, \<open>removeLastTag_butlast\<close>.)
\<close>

theorem removeLast_drops_duplicates:
  "addTag (addTag (addTag [] ''x'' \<lparr>maxTags = 10, allowDuplicates = True\<rparr>) ''y''
       \<lparr>maxTags = 10, allowDuplicates = True\<rparr>) ''x'' \<lparr>maxTags = 10, allowDuplicates = True\<rparr>
     = [''x'', ''y'', ''x'']
   \<and> removeLastTag \<lparr>maxTags = 10, allowDuplicates = True\<rparr> [''x'', ''y'', ''x''] = [''y'']
   \<and> removeLastTag \<lparr>maxTags = 10, allowDuplicates = True\<rparr> [''x'', ''y'', ''x'']
       \<noteq> butlast [''x'', ''y'', ''x'']"
  by code_simp

text \<open>
  C3. The claim: for every collection and every configuration, removing \<open>newtag\<close> after an
  addition of \<open>newtag\<close> that appended gives the collection back. With duplicates allowed the
  addition appends to a collection that already holds \<open>newtag\<close>, and the removal then takes
  out every occurrence.
\<close>

theorem round_trip_counterexample:
  "addTag [''newtag''] ''newtag'' \<lparr>maxTags = 10, allowDuplicates = True\<rparr> \<noteq> [''newtag'']
   \<and> removeTag (addTag [''newtag''] ''newtag'' \<lparr>maxTags = 10, allowDuplicates = True\<rparr>) ''newtag''
       \<noteq> [''newtag'']"
  by code_simp

text \<open>
  C3, amended. Whenever the addition of \<open>newtag\<close> appended, and duplicates are not allowed
  or the collection did not hold \<open>newtag\<close> before, removing \<open>newtag\<close> from the result gives
  the collection back.
\<close>

theorem round_trip:
  assumes "addTag C ''newtag'' cfg \<noteq> C"
    and "\<not> allowDuplicates cfg \<or> ''newtag'' \<notin> set C"
  shows "removeTag (addTag C ''newtag'' cfg) ''newtag'' = C"
proof -
  from assms(1) have app: "addTag C ''newtag'' cfg = C @ [''newtag'']"
    and ok: "allowDuplicates cfg \<or> ''newtag'' \<notin> set C"
    by (auto simp add: addTag_eq normalizeTag_newtag split: if_splits)
  from ok assms(2) have "''newtag'' \<notin> set C" by blast
  then have "filter (\<lambda>tag. tag \<noteq> ''newtag'') C = C" by (auto simp add: filter_id_conv)
  with app show ?thesis by (simp add: removeTag_eq)
qed

theorem round_trip_witness:
  "addTag [''a''] ''newtag'' defaultProps \<noteq> [''a'']
   \<and> \<not> allowDuplicates defaultProps
   \<and> ''newtag'' \<notin> set [''a'']
   \<and> removeTag (addTag [''a''] ''newtag'' defaultProps) ''newtag'' = [''a'']"
proof -
  have 1: "addTag [''a''] ''newtag'' defaultProps \<noteq> [''a'']" by code_simp
  have 2: "\<not> allowDuplicates defaultProps" by (simp add: defaultProps_def)
  have 3: "''newtag'' \<notin> set [''a'']" by simp
  from 2 have 4: "\<not> allowDuplicates defaultProps \<or> ''newtag'' \<notin> set [''a'']" by (rule disjI1)
  from round_trip [OF 1 4] 1 2 3 show ?thesis by blast
qed

text \<open>
  C4. With duplicates not allowed, adding an input whose normalized value is already in the
  collection returns the collection unchanged. The comparison is made on the normalized
  input, so the input may differ from the stored tag in case and in surrounding whitespace.
  The operation has no error result.
\<close>

theorem duplicate_rejected:
  assumes "normalizeTag t \<in> set C" and "\<not> allowDuplicates cfg"
  shows "addTag C t cfg = C"
  using assms by (simp add: addTag_eq)

theorem duplicate_rejected_witness:
  "normalizeTag ''  Work '' \<in> set [''home'', ''work'']
   \<and> \<not> allowDuplicates defaultProps
   \<and> addTag [''home'', ''work''] ''  Work '' defaultProps = [''home'', ''work'']"
proof -
  have 1: "normalizeTag ''  Work '' \<in> set [''home'', ''work'']" by code_simp
  have 2: "\<not> allowDuplicates defaultProps" by (simp add: defaultProps_def)
  from duplicate_rejected [OF 1 2] 1 2 show ?thesis by blast
qed

text \<open>
  C5. The normalization is the specification's: surrounding whitespace trimmed, then
  lowercased (\<open>specNormalize\<close>). When that value is not empty, is not a rejected
  duplicate, and the collection is under the limit, the addition returns the collection with
  that value appended at the end, the earlier entries in their order; when that value is
  empty it returns the collection unchanged.
\<close>

theorem add_appends_normalized:
  "(specNormalize rawInput \<noteq> []
      \<and> (allowDuplicates cfg \<or> specNormalize rawInput \<notin> set C)
      \<and> int (length C) < maxTags cfg
    \<longrightarrow> addTag C rawInput cfg = C @ [specNormalize rawInput])
   \<and> (specNormalize rawInput = [] \<longrightarrow> addTag C rawInput cfg = C)"
  by (auto simp add: addTag_eq normalizeTag_spec)

theorem add_appends_normalized_witness:
  "specNormalize ''  Work Out  '' = ''work out''
   \<and> ''work out'' \<notin> set [''a'', ''b'']
   \<and> int (length [''a'', ''b'']) < maxTags \<lparr>maxTags = 10, allowDuplicates = False\<rparr>
   \<and> addTag [''a'', ''b''] ''  Work Out  '' \<lparr>maxTags = 10, allowDuplicates = False\<rparr>
       = [''a'', ''b'', ''work out'']
   \<and> addTag [] ''  Work  '' defaultProps = [''work'']
   \<and> specNormalize ''   '' = []
   \<and> addTag [''a'', ''b''] ''   '' \<lparr>maxTags = 10, allowDuplicates = False\<rparr> = [''a'', ''b'']"
proof -
  have n: "specNormalize ''  Work Out  '' = ''work out''"
    unfolding normalizeTag_spec [symmetric] by code_simp
  have w: "specNormalize ''  Work  '' = ''work''"
    unfolding normalizeTag_spec [symmetric] by code_simp
  have e: "specNormalize ''   '' = []"
    unfolding normalizeTag_spec [symmetric] by code_simp
  from add_appends_normalized [of "''  Work Out  ''" "\<lparr>maxTags = 10, allowDuplicates = False\<rparr>" "[''a'', ''b'']"]
    add_appends_normalized [of "''  Work  ''" defaultProps "[]"]
    add_appends_normalized [of "''   ''" "\<lparr>maxTags = 10, allowDuplicates = False\<rparr>" "[''a'', ''b'']"]
  show ?thesis by (simp add: n w e defaultProps_def)
qed

text \<open>
  C6. When the collection already has \<open>maxTags\<close> entries or more, the addition returns it
  unchanged, whatever the input.
\<close>

theorem limit_enforced:
  assumes "maxTags cfg \<le> int (length C)"
  shows "addTag C rawInput cfg = C"
  using assms by (simp add: addTag_eq Let_def)

theorem limit_enforced_witness:
  "maxTags \<lparr>maxTags = 3, allowDuplicates = False\<rparr> \<le> int (length [''a'', ''b'', ''c''])
   \<and> addTag [''a'', ''b'', ''c''] ''d'' \<lparr>maxTags = 3, allowDuplicates = False\<rparr> = [''a'', ''b'', ''c'']"
proof -
  have 1: "maxTags \<lparr>maxTags = 3, allowDuplicates = False\<rparr> \<le> int (length [''a'', ''b'', ''c''])"
    by simp
  from limit_enforced [OF 1] 1 show ?thesis by blast
qed

text \<open>
  C7. For every display cap, and for none, the empty collection renders as \<open>None\<close> (the
  source's null), which is no rendering at all; every non-empty collection renders as some
  rendering, also when none of its tags is visible.
\<close>

theorem empty_renders_nothing:
  "TagsDisplay [] maxDisplay v = None
   \<and> (\<forall>ts. ts \<noteq> [] \<longrightarrow> (\<exists>r. TagsDisplay ts maxDisplay v = Some r))"
  by (simp add: TagsDisplay_def)

theorem empty_renders_nothing_witness:
  "TagsDisplay [] (Some (- 1)) Compact = None
   \<and> [''a''] \<noteq> []
   \<and> (\<exists>r. TagsDisplay [''a''] (Some (- 1)) Compact = Some r)
   \<and> TagsDisplay [''a''] (Some (- 1)) Compact =
       Some \<lparr>variant = Compact, displayTags = [], remainingCount = 2\<rparr>"
proof -
  have "TagsDisplay [''a''] (Some (- 1)) Compact =
       Some \<lparr>variant = Compact, displayTags = [], remainingCount = 2\<rparr>"
    by (simp add: TagsDisplay_def computeDisplayTags_def computeRemainingCount_def truthy_def
        slice0_def)
  with empty_renders_nothing [of "Some (- 1)" Compact] show ?thesis by simp
qed




text \<open>
  C9. The toggle keeps the length of the task list; at every position it keeps the id,
  title, description, priority, tags, creation and due timestamps and the legacy text of the
  task, flips the completion flag exactly when the task has the given id, and leaves a task
  with another id as it is.
\<close>

theorem toggle_frame:
  "length (handleToggleTask i ts) = length ts
   \<and> (\<forall>k < length ts.
        task_id (handleToggleTask i ts ! k) = task_id (ts ! k)
      \<and> title (handleToggleTask i ts ! k) = title (ts ! k)
      \<and> description (handleToggleTask i ts ! k) = description (ts ! k)
      \<and> priority (handleToggleTask i ts ! k) = priority (ts ! k)
      \<and> task_tags (handleToggleTask i ts ! k) = task_tags (ts ! k)
      \<and> createdAt (handleToggleTask i ts ! k) = createdAt (ts ! k)
      \<and> dueDate (handleToggleTask i ts ! k) = dueDate (ts ! k)
      \<and> task_text (handleToggleTask i ts ! k) = task_text (ts ! k)
      \<and> completed (handleToggleTask i ts ! k)
          = (if task_id (ts ! k) = i then \<not> completed (ts ! k) else completed (ts ! k))
      \<and> (task_id (ts ! k) \<noteq> i \<longrightarrow> handleToggleTask i ts ! k = ts ! k))"
  by (simp add: handleToggleTask_def)

theorem toggle_frame_witness:
  "(1::nat) < length exampleTasks
   \<and> task_id (exampleTasks ! 1) = ''1''
   \<and> completed (handleToggleTask ''1'' exampleTasks ! 1) = (\<not> completed (exampleTasks ! 1))
   \<and> title (handleToggleTask ''1'' exampleTasks ! 1) = title (exampleTasks ! 1)
   \<and> task_tags (handleToggleTask ''1'' exampleTasks ! 1) = task_tags (exampleTasks ! 1)
   \<and> (0::nat) < length exampleTasks
   \<and> task_id (exampleTasks ! 0) \<noteq> ''1''
   \<and> handleToggleTask ''1'' exampleTasks ! 0 = exampleTasks ! 0"
proof -
  note frame = toggle_frame [of "''1''" exampleTasks, THEN conjunct2, rule_format]
  have k1: "(1::nat) < length exampleTasks" by (simp add: exampleTasks_def)
  have k0: "(0::nat) < length exampleTasks" by (simp add: exampleTasks_def)
  have id1: "task_id (exampleTasks ! 1) = ''1''" by (simp add: exampleTasks_def)
  have id0: "task_id (exampleTasks ! 0) \<noteq> ''1''" by (simp add: exampleTasks_def)
  from frame [OF k1] id1
  have "completed (handleToggleTask ''1'' exampleTasks ! 1) = (\<not> completed (exampleTasks ! 1))"
    and "title (handleToggleTask ''1'' exampleTasks ! 1) = title (exampleTasks ! 1)"
    and "task_tags (handleToggleTask ''1'' exampleTasks ! 1) = task_tags (exampleTasks ! 1)"
    by simp_all
  moreover from frame [OF k0] id0
  have "handleToggleTask ''1'' exampleTasks ! 0 = exampleTasks ! 0" by blast
  ultimately show ?thesis using k1 k0 id1 id0 by blast
qed

text \<open>
  C10. The result of an addition is the collection itself or the collection with one
  element, the normalized input, appended at the end.
\<close>

theorem add_shape:
  "addTag C rawInput cfg = C \<or> addTag C rawInput cfg = C @ [normalizeTag rawInput]"
  by (simp add: addTag_eq Let_def)

theorem add_shape_witness:
  "addTag [''a''] ''b'' defaultProps = [''a''] \<or> addTag [''a''] ''b'' defaultProps = [''a''] @ [normalizeTag ''b'']"
  using add_shape [of "[''a'']" "''b''" defaultProps] by simp

end
